theory Spec2Isabelle
  imports Complex_Main
begin

section \<open>The DIAMOnD expansion of \<open>scripts/script.py\<close>\<close>

text \<open>
  The development embeds the function \<open>diamond\<close> of \<open>scripts/script.py\<close> and the
  graph queries of networkx it rests on. The scorer \<open>hypergeom.sf\<close> is not code of the
  repository (the script imports it from scipy): it is modelled from section 4.2 of the
  specification, as the exact survival probability, a rational number, where the library
  returns a float64 rounded from it. What is proved of p-values is therefore proved of the
  specified scorer, not of the rounded values.

  The order in which Python walks a \<open>set\<close> is not fixed by the language (for strings it changes from one process to the next), so it is a parameter
  \<open>enum\<close> of the model: \<open>enum xs\<close> is the order in which the set with the elements
  \<open>xs\<close> is walked. The progress lines printed under \<open>verbose\<close> are left out; the
  warning and the error line of the seed check are kept.
\<close>

subsection \<open>Graph and p-values\<close>

type_synonym node = string

text \<open>
  What \<open>diamond\<close> asks of a networkx graph: \<open>G.nodes()\<close>, \<open>G.neighbors(n)\<close>,
  \<open>G.degree(n)\<close>, and \<open>n in G\<close>, which is membership in \<open>G.nodes()\<close>.
\<close>

record graph =
  G_nodes :: "node list"
  G_neighbors :: "node \<Rightarrow> node list"
  G_degree :: "node \<Rightarrow> nat"

datatype pvalue = NaN | P rat

text \<open>The comparison \<open>a < b\<close> of two floats: false as soon as one side is not a number.\<close>

fun float_less :: "pvalue \<Rightarrow> pvalue \<Rightarrow> bool" where
  "float_less (P a) (P b) = (a < b)"
| "float_less _ _ = False"

subsection \<open>The hypergeometric survival function\<close>

text \<open>
  Modelled from the spec: the probability mass of the hypergeometric distribution behind
  the Hypergeometric Significance Scorer of section 4.2, which the source takes from scipy
  and which is not in the repository. The parameters carry the names of the library call:
  \<open>M\<close> the population, \<open>n\<close> the success states, \<open>N\<close> the draws; the mass at \<open>i\<close> is
  \<open>C(n,i) C(M-n,N-i) / C(M,N)\<close>, an exact rational.
\<close>

definition hypergeom_pmf :: "nat \<Rightarrow> nat \<Rightarrow> nat \<Rightarrow> nat \<Rightarrow> rat" where
  "hypergeom_pmf i M n N =
     (if i \<le> min n N
      then of_nat ((n choose i) * ((M - n) choose (N - i))) / of_nat (M choose N)
      else 0)"

text \<open>
  Modelled from the spec: the probability of at most \<open>x\<close> successes, the complement of the
  upper tail of section 4.2; part of the scorer that is not in the repository.
\<close>

definition hypergeom_cdf :: "int \<Rightarrow> nat \<Rightarrow> nat \<Rightarrow> nat \<Rightarrow> rat" where
  "hypergeom_cdf x M n N =
     (\<Sum>i\<leftarrow>[i \<leftarrow> [0..<Suc (min n N)]. int i \<le> x]. hypergeom_pmf i M n N)"

text \<open>
  Modelled from the spec: the scorer \<open>hypergeom.sf(x, M, n, N)\<close> that line 147 calls and
  that is not in the repository. Section 4.2 specifies the upper-tail survival probability,
  computed exactly: here \<open>1 - cdf\<close>, the probability of more than \<open>x\<close> successes, as an
  exact rational and not as the float64 of the library. For parameters outside
  \<open>0 < M\<close>, \<open>0 \<le> n \<le> M\<close>, \<open>0 \<le> N \<le> M\<close> the value is not a number.
\<close>

definition hypergeom_sf :: "int \<Rightarrow> int \<Rightarrow> int \<Rightarrow> int \<Rightarrow> pvalue" where
  "hypergeom_sf x M n N =
     (if 0 < M \<and> 0 \<le> n \<and> 0 \<le> N \<and> n \<le> M \<and> N \<le> M
      then P (1 - hypergeom_cdf x (nat M) (nat n) (nat N))
      else NaN)"

subsection \<open>One iteration of the main loop\<close>

text \<open>Lines 125 to 129: \<open>s = int(alpha * len(cluster))\<close>, then the two corrections.\<close>

definition effective_s :: "int \<Rightarrow> nat \<Rightarrow> nat \<Rightarrow> int" where
  "effective_s alpha len_cluster N =
     (let s = alpha * int len_cluster;
          s = (if s < 1 then int len_cluster else s);
          s = (if s > int N then int N else s)
      in s)"

text \<open>
  The dictionaries \<open>degrees\<close> and \<open>neighbors\<close> have the nodes of the graph as keys;
  \<open>degrees.get(node, 0)\<close> and \<open>neighbors.get(node, ())\<close> give the default elsewhere.
  A stored neighbourhood is a set, so a neighbour counts once.
\<close>

definition degrees_get :: "graph \<Rightarrow> node \<Rightarrow> nat" where
  "degrees_get G node = (if node \<in> set (G_nodes G) then G_degree G node else 0)"

definition neighbors_get :: "graph \<Rightarrow> node \<Rightarrow> node list" where
  "neighbors_get G node =
     (if node \<in> set (G_nodes G) then remdups (G_neighbors G node) else [])"

text \<open>Line 143: the number of neighbours of the candidate that are in the cluster.\<close>

definition kb :: "graph \<Rightarrow> node set \<Rightarrow> node \<Rightarrow> nat" where
  "kb G cluster node = length [nb \<leftarrow> neighbors_get G node. nb \<in> cluster]"

text \<open>
  Lines 139 to 150 for one candidate: \<open>None\<close> is the \<open>continue\<close> of a candidate of
  degree 0, \<open>Some pval\<close> the p-value of a scored one. The survival function does not
  raise on integer arguments (it answers not-a-number where they are out of its domain),
  so the handler of line 148 has no branch here.
\<close>

definition score_candidate :: "graph \<Rightarrow> node set \<Rightarrow> int \<Rightarrow> node \<Rightarrow> pvalue option" where
  "score_candidate G cluster s node =
     (let N = card (set (G_nodes G));
          k = degrees_get G node
      in if k = 0 then None
         else let pval = hypergeom_sf (int (kb G cluster node) - 1) (int N) s (int k)
              in Some pval)"

text \<open>Lines 152 to 154: a scored candidate replaces the best one when strictly smaller.\<close>

definition select :: "graph \<Rightarrow> node set \<Rightarrow> int \<Rightarrow> node \<Rightarrow>
    node option \<times> pvalue \<Rightarrow> node option \<times> pvalue" where
  "select G cluster s node best =
     (case score_candidate G cluster s node of
        None \<Rightarrow> best
      | Some pval \<Rightarrow> if float_less pval (snd best) then (Some node, pval) else best)"

text \<open>The \<open>for\<close> loop over the candidates, from \<open>best_node = None\<close> and \<open>best_p = 1.0\<close>.\<close>

definition scan :: "graph \<Rightarrow> node set \<Rightarrow> int \<Rightarrow> node list \<Rightarrow> node option \<times> pvalue" where
  "scan G cluster s candidates = fold (select G cluster s) candidates (None, P 1)"

datatype exit_reason = EMPTY_SEED_SET | TARGET_REACHED | NO_CANDIDATES | NO_NODE_SELECTED

text \<open>
  The body of the \<open>while\<close>: \<open>Inl\<close> is one of the two \<open>break\<close>s, \<open>Inr\<close> the node that
  lines 160 and 161 admit.
\<close>

definition iteration :: "(node list \<Rightarrow> node list) \<Rightarrow> graph \<Rightarrow> int \<Rightarrow> node set \<Rightarrow>
    exit_reason + node" where
  "iteration enum G alpha cluster =
     (let N = card (set (G_nodes G));
          s = effective_s alpha (card cluster) N;
          candidates = [n \<leftarrow> remdups (G_nodes G). n \<notin> cluster]
      in if candidates = [] then Inl NO_CANDIDATES
         else case fst (scan G cluster s (enum candidates)) of
                None \<Rightarrow> Inl NO_NODE_SELECTED
              | Some best_node \<Rightarrow> Inr best_node)"

subsection \<open>The main loop and the function\<close>

text \<open>
  The \<open>while\<close> loop on the state \<open>(cluster, added)\<close>. The result holds the final state
  and the exit that was taken; \<open>None\<close> stands for a loop that does not return.
\<close>

partial_function (option) loop :: "(node list \<Rightarrow> node list) \<Rightarrow> graph \<Rightarrow> int \<Rightarrow> int \<Rightarrow>
    node set \<Rightarrow> node list \<Rightarrow> (node set \<times> node list \<times> exit_reason) option" where
  "loop enum G X alpha cluster added =
     (if int (length added) < X then
        (case iteration enum G alpha cluster of
           Inl reason \<Rightarrow> Some (cluster, added, reason)
         | Inr best_node \<Rightarrow>
             loop enum G X alpha (insert best_node cluster) (added @ [best_node]))
      else Some (cluster, added, TARGET_REACHED))"

declare loop.simps [code]

datatype message = WARNING "node set" | ERROR

text \<open>
  \<open>diamond(G, seeds, X, alpha)\<close>. The result is what the seed check prints (the warning
  carries the missing seeds), the list the function returns, and the exit taken.
\<close>

definition diamond :: "(node list \<Rightarrow> node list) \<Rightarrow> graph \<Rightarrow> node list \<Rightarrow> int \<Rightarrow> int \<Rightarrow>
    (message list \<times> node list \<times> exit_reason) option" where
  "diamond enum G seeds X alpha =
     (let seeds_present = set [s \<leftarrow> seeds. s \<in> set (G_nodes G)];
          missing = set seeds - seeds_present;
          printed = (if missing \<noteq> {} then [WARNING missing] else [])
      in if seeds_present = {} then Some (printed @ [ERROR], [], EMPTY_SEED_SET)
         else map_option (\<lambda>(cluster, added, reason). (printed, added, reason))
                (loop enum G X alpha seeds_present []))"

subsection \<open>Walking a set, and two small graphs\<close>

text \<open>
  Whatever order a set is walked in, the walk meets the elements of the set and no other:
  the property of \<open>enum\<close> that the results below ask for.
\<close>

definition set_order :: "(node list \<Rightarrow> node list) \<Rightarrow> bool" where
  "set_order enum = (\<forall>xs. set (enum xs) = set xs)"

text \<open>
  The graph with the two edges A-B and C-D, the star with the edges A-B and A-C, and the
  graph with the edge A-B and the self-loop B-B. A self-loop makes a node its own neighbour
  and counts twice in the degree that networkx reports, so B has degree 3 among 2 nodes.
\<close>

definition two_edges :: graph where
  "two_edges =
     \<lparr>G_nodes = [''A'', ''B'', ''C'', ''D''],
      G_neighbors = (\<lambda>n. if n = ''A'' then [''B''] else if n = ''B'' then [''A'']
                         else if n = ''C'' then [''D''] else if n = ''D'' then [''C'']
                         else []),
      G_degree = (\<lambda>n. if n \<in> set [''A'', ''B'', ''C'', ''D''] then 1 else 0)\<rparr>"

definition star :: graph where
  "star =
     \<lparr>G_nodes = [''A'', ''B'', ''C''],
      G_neighbors = (\<lambda>n. if n = ''A'' then [''B'', ''C''] else if n = ''B'' then [''A'']
                         else if n = ''C'' then [''A''] else []),
      G_degree = (\<lambda>n. if n = ''A'' then 2 else if n \<in> set [''B'', ''C''] then 1 else 0)\<rparr>"


subsection \<open>Notions of the specification\<close>


section \<open>Properties\<close>

subsection \<open>The effective cluster size\<close>




subsection \<open>The scan of the candidates\<close>

lemma select_cases:
  "select G cluster s x (b0, P p0) = (b0, P p0) \<and>
     (\<forall>q. score_candidate G cluster s x = Some (P q) \<longrightarrow> p0 \<le> q)
   \<or> (\<exists>q. score_candidate G cluster s x = Some (P q) \<and> q < p0 \<and>
         select G cluster s x (b0, P p0) = (Some x, P q))"
proof (cases "score_candidate G cluster s x")
  case None
  then show ?thesis by (simp add: select_def)
next
  case (Some pv)
  then show ?thesis by (cases pv) (auto simp: select_def)
qed

lemma fold_select:
  "fold (select G cluster s) xs (b0, P p0) = (b, bp) \<Longrightarrow>
     (b = b0 \<and> bp = P p0 \<and>
        (\<forall>m\<in>set xs. \<forall>q. score_candidate G cluster s m = Some (P q) \<longrightarrow> p0 \<le> q))
   \<or> (\<exists>pre n post p. xs = pre @ n # post \<and> b = Some n \<and> bp = P p \<and> p < p0 \<and>
         score_candidate G cluster s n = Some (P p) \<and>
         (\<forall>m\<in>set pre. \<forall>q. score_candidate G cluster s m = Some (P q) \<longrightarrow> p < q) \<and>
         (\<forall>m\<in>set post. \<forall>q. score_candidate G cluster s m = Some (P q) \<longrightarrow> p \<le> q))"
proof (induction xs arbitrary: b0 p0)
  case Nil
  then show ?case by simp
next
  case (Cons x xs)
  let ?sc = "score_candidate G cluster s"
  from select_cases [of G cluster s x b0 p0] show ?case
  proof (elim disjE conjE exE)
    assume same: "select G cluster s x (b0, P p0) = (b0, P p0)"
      and ge: "\<forall>q. ?sc x = Some (P q) \<longrightarrow> p0 \<le> q"
    from Cons.prems same have "fold (select G cluster s) xs (b0, P p0) = (b, bp)" by simp
    from Cons.IH [OF this] show ?thesis
    proof (elim disjE conjE exE)
      assume "b = b0" "bp = P p0"
        "\<forall>m\<in>set xs. \<forall>q. ?sc m = Some (P q) \<longrightarrow> p0 \<le> q"
      with ge show ?thesis by auto
    next
      fix pre n post p
      assume h: "xs = pre @ n # post" "b = Some n" "bp = P p" "p < p0" "?sc n = Some (P p)"
        "\<forall>m\<in>set pre. \<forall>q. ?sc m = Some (P q) \<longrightarrow> p < q"
        "\<forall>m\<in>set post. \<forall>q. ?sc m = Some (P q) \<longrightarrow> p \<le> q"
      have "x # xs = (x # pre) @ n # post" using h(1) by simp
      moreover have "\<forall>m\<in>set (x # pre). \<forall>q. ?sc m = Some (P q) \<longrightarrow> p < q"
        using h(4,6) ge by fastforce
      ultimately show ?thesis using h by blast
    qed
  next
    fix q0
    assume sc: "?sc x = Some (P q0)" and lt: "q0 < p0"
      and sel: "select G cluster s x (b0, P p0) = (Some x, P q0)"
    from Cons.prems sel have "fold (select G cluster s) xs (Some x, P q0) = (b, bp)" by simp
    from Cons.IH [OF this] show ?thesis
    proof (elim disjE conjE exE)
      assume h: "b = Some x" "bp = P q0"
        "\<forall>m\<in>set xs. \<forall>q. ?sc m = Some (P q) \<longrightarrow> q0 \<le> q"
      have "x # xs = [] @ x # xs" by simp
      with h sc lt show ?thesis by (metis empty_iff empty_set)
    next
      fix pre n post p
      assume h: "xs = pre @ n # post" "b = Some n" "bp = P p" "p < q0" "?sc n = Some (P p)"
        "\<forall>m\<in>set pre. \<forall>q. ?sc m = Some (P q) \<longrightarrow> p < q"
        "\<forall>m\<in>set post. \<forall>q. ?sc m = Some (P q) \<longrightarrow> p \<le> q"
      have "x # xs = (x # pre) @ n # post" using h(1) by simp
      moreover have "\<forall>m\<in>set (x # pre). \<forall>q. ?sc m = Some (P q) \<longrightarrow> p < q"
        using h(4,6) sc by auto
      moreover have "p < p0" using h(4) lt by simp
      ultimately show ?thesis using h by blast
    qed
  qed
qed

lemma scan_Some:
  assumes "fst (scan G cluster s xs) = Some n"
  shows "\<exists>pre post p. xs = pre @ n # post \<and> scan G cluster s xs = (Some n, P p) \<and> p < 1 \<and>
         score_candidate G cluster s n = Some (P p) \<and>
         (\<forall>m\<in>set pre. \<forall>q. score_candidate G cluster s m = Some (P q) \<longrightarrow> p < q) \<and>
         (\<forall>m\<in>set post. \<forall>q. score_candidate G cluster s m = Some (P q) \<longrightarrow> p \<le> q)"
proof -
  obtain b bp where r: "scan G cluster s xs = (b, bp)" by (cases "scan G cluster s xs")
  with assms have b: "b = Some n" by simp
  from r have "fold (select G cluster s) xs (None, P 1) = (b, bp)" by (simp add: scan_def)
  from fold_select [OF this] b r show ?thesis by auto
qed

lemma scan_None:
  assumes "fst (scan G cluster s xs) = None"
  shows "\<forall>m\<in>set xs. \<forall>q. score_candidate G cluster s m = Some (P q) \<longrightarrow> 1 \<le> q"
proof -
  obtain b bp where r: "scan G cluster s xs = (b, bp)" by (cases "scan G cluster s xs")
  with assms have b: "b = None" by simp
  from r have "fold (select G cluster s) xs (None, P 1) = (b, bp)" by (simp add: scan_def)
  from fold_select [OF this] b show ?thesis by auto
qed

lemma score_candidate_Some_degree:
  "score_candidate G cluster s n = Some pv \<Longrightarrow> n \<in> set (G_nodes G) \<and> G_degree G n \<noteq> 0"
  by (auto simp: score_candidate_def degrees_get_def Let_def split: if_splits)

lemma hypergeom_cdf_below: "x < 0 \<Longrightarrow> hypergeom_cdf x M n N = 0"
proof -
  assume "x < 0"
  then have "[i \<leftarrow> [0..<Suc (min n N)]. int i \<le> x] = []"
    by (auto simp: filter_empty_conv)
  then show ?thesis by (simp add: hypergeom_cdf_def)
qed

lemma score_candidate_kb_0:
  assumes "kb G cluster node = 0"
  shows "score_candidate G cluster s node = None
       \<or> score_candidate G cluster s node = Some NaN
       \<or> score_candidate G cluster s node = Some (P 1)"
  using assms by (simp add: score_candidate_def Let_def hypergeom_sf_def hypergeom_cdf_below)

lemma iteration_Inr:
  assumes "iteration enum G alpha cluster = Inr b"
  shows "b \<in> set (enum [n \<leftarrow> remdups (G_nodes G). n \<notin> cluster]) \<and>
         b \<in> set (G_nodes G) \<and> G_degree G b \<noteq> 0"
proof -
  let ?s = "effective_s alpha (card cluster) (card (set (G_nodes G)))"
  let ?cs = "enum [n \<leftarrow> remdups (G_nodes G). n \<notin> cluster]"
  from assms have "fst (scan G cluster ?s ?cs) = Some b"
    by (auto simp: iteration_def Let_def split: if_splits option.splits)
  from scan_Some [OF this] show ?thesis
    using score_candidate_Some_degree by fastforce
qed

lemma iteration_Inl:
  assumes "iteration enum G alpha cluster = Inl r"
  shows "r = NO_CANDIDATES \<and> set (G_nodes G) \<subseteq> cluster
       \<or> r = NO_NODE_SELECTED \<and> \<not> set (G_nodes G) \<subseteq> cluster \<and>
           (\<forall>m\<in>set (enum [n \<leftarrow> remdups (G_nodes G). n \<notin> cluster]). \<forall>q.
              score_candidate G cluster (effective_s alpha (card cluster) (card (set (G_nodes G)))) m
                = Some (P q) \<longrightarrow> 1 \<le> q)"
proof (cases "[n \<leftarrow> remdups (G_nodes G). n \<notin> cluster] = []")
  case True
  with assms have "r = NO_CANDIDATES" by (simp add: iteration_def Let_def)
  moreover from True have "set (G_nodes G) \<subseteq> cluster"
    by (auto simp: filter_empty_conv)
  ultimately show ?thesis by simp
next
  case False
  let ?s = "effective_s alpha (card cluster) (card (set (G_nodes G)))"
  let ?cs = "enum [n \<leftarrow> remdups (G_nodes G). n \<notin> cluster]"
  from False assms have "fst (scan G cluster ?s ?cs) = None \<and> r = NO_NODE_SELECTED"
    by (auto simp: iteration_def Let_def split: option.splits)
  moreover from False have "\<not> set (G_nodes G) \<subseteq> cluster"
    by (auto simp: filter_empty_conv)
  ultimately show ?thesis using scan_None by blast
qed

subsection \<open>The loop and the function\<close>

lemma loop_returns:
  assumes "I cluster added"
    and "\<And>c a b. I c a \<Longrightarrow> int (length a) < X \<Longrightarrow> iteration enum G alpha c = Inr b
            \<Longrightarrow> I (insert b c) (a @ [b])"
  shows "\<exists>c a r. loop enum G X alpha cluster added = Some (c, a, r) \<and> I c a \<and>
           (if int (length a) < X then iteration enum G alpha c = Inl r
            else r = TARGET_REACHED)"
  using assms(1)
proof (induction "nat (X - int (length added))" arbitrary: cluster added)
  case 0
  then have "\<not> int (length added) < X" by simp
  with "0.prems" show ?case
    by (subst loop.simps) simp
next
  case (Suc m)
  then have lt: "int (length added) < X" by linarith
  show ?case
  proof (cases "iteration enum G alpha cluster")
    case (Inl r)
    with lt Suc.prems show ?thesis
      by (subst loop.simps) simp
  next
    case (Inr b)
    have "m = nat (X - int (length (added @ [b])))"
      using Suc.hyps(2) by simp
    moreover have "I (insert b cluster) (added @ [b])"
      using assms(2) Suc.prems lt Inr by blast
    ultimately have "\<exists>c a r. loop enum G X alpha (insert b cluster) (added @ [b]) = Some (c, a, r)
        \<and> I c a \<and> (if int (length a) < X then iteration enum G alpha c = Inl r
            else r = TARGET_REACHED)"
      by (rule Suc.hyps(1))
    with lt Inr show ?thesis
      by (subst loop.simps) simp
  qed
qed

lemma loop_exit_reason:
  assumes "loop enum G X alpha cluster added = Some (c, a, r)"
  shows "r \<noteq> EMPTY_SEED_SET"
proof -
  have "\<exists>c a r. loop enum G X alpha cluster added = Some (c, a, r) \<and> True \<and>
           (if int (length a) < X then iteration enum G alpha c = Inl r
            else r = TARGET_REACHED)"
    by (rule loop_returns [where I = "\<lambda>c a. True"]) simp_all
  with assms have "if int (length a) < X then iteration enum G alpha c = Inl r
            else r = TARGET_REACHED" by simp
  then show ?thesis
    using iteration_Inl [of enum G alpha c r] by (auto split: if_splits)
qed

lemma loop_length:
  assumes "loop enum G X alpha cluster [] = Some (c, a, r)"
  shows "length a \<le> nat X"
proof -
  have "\<exists>c a r. loop enum G X alpha cluster [] = Some (c, a, r) \<and> length a \<le> nat X \<and>
           (if int (length a) < X then iteration enum G alpha c = Inl r
            else r = TARGET_REACHED)"
    by (rule loop_returns [where I = "\<lambda>c a. length a \<le> nat X"]) auto
  with assms show ?thesis by simp
qed

lemma set_order_id: "set_order id"
  by (simp add: set_order_def)

lemma set_order_rev: "set_order rev"
  by (simp add: set_order_def)

lemma loop_state:
  assumes ord: "set_order enum"
  shows "\<exists>c a r. loop enum G X alpha cluster added = Some (c, added @ a, r) \<and>
           c = cluster \<union> set a \<and> distinct a \<and> set a \<inter> cluster = {} \<and>
           set a \<subseteq> set (G_nodes G) \<and>
           (if int (length (added @ a)) < X then iteration enum G alpha c = Inl r
            else r = TARGET_REACHED)"
proof -
  define I where "I = (\<lambda>c a'. take (length added) a' = added \<and>
      c = cluster \<union> set (drop (length added) a') \<and> distinct (drop (length added) a') \<and>
      set (drop (length added) a') \<inter> cluster = {} \<and>
      set (drop (length added) a') \<subseteq> set (G_nodes G))"
  have init: "I cluster added" by (simp add: I_def)
  have step: "I (insert b c) (a' @ [b])"
    if inv: "I c a'" and "int (length a') < X" and it: "iteration enum G alpha c = Inr b"
    for c a' b
  proof -
    from iteration_Inr [OF it] ord have b: "b \<in> set (G_nodes G)" "b \<notin> c"
      by (auto simp: set_order_def)
    from inv have len: "length added \<le> length a'"
      unfolding I_def by (metis length_take min.cobounded1)
    with inv b show ?thesis
      unfolding I_def by auto
  qed
  have "\<exists>c a' r. loop enum G X alpha cluster added = Some (c, a', r) \<and> I c a' \<and>
           (if int (length a') < X then iteration enum G alpha c = Inl r
            else r = TARGET_REACHED)"
    by (rule loop_returns [where I = I, OF init]) (rule step)
  then obtain c a' r where r: "loop enum G X alpha cluster added = Some (c, a', r)"
    and inv: "I c a'"
    and ex: "if int (length a') < X then iteration enum G alpha c = Inl r else r = TARGET_REACHED"
    by blast
  have a': "a' = added @ drop (length added) a'"
    using inv unfolding I_def by (metis append_take_drop_id)
  show ?thesis
  proof (intro exI conjI)
    show "loop enum G X alpha cluster added = Some (c, added @ drop (length added) a', r)"
      using r a' by simp
    show "if int (length (added @ drop (length added) a')) < X
          then iteration enum G alpha c = Inl r else r = TARGET_REACHED"
      using ex a' by simp
  qed (use inv in \<open>simp_all add: I_def\<close>)
qed

lemma seeds_present_eq: "set [s \<leftarrow> seeds. s \<in> set (G_nodes G)] = set seeds \<inter> set (G_nodes G)"
  by auto

lemma diamond_empty:
  assumes "set seeds \<inter> set (G_nodes G) = {}"
  shows "diamond enum G seeds X alpha =
    Some ((if set seeds \<noteq> {} then [WARNING (set seeds)] else []) @ [ERROR], [], EMPTY_SEED_SET)"
proof -
  have "set [s \<leftarrow> seeds. s \<in> set (G_nodes G)] = {}"
    using assms by (simp only: seeds_present_eq)
  then show ?thesis
    by (simp add: diamond_def Let_def)
qed

lemma diamond_present:
  assumes "set seeds \<inter> set (G_nodes G) \<noteq> {}"
    and "loop enum G X alpha (set seeds \<inter> set (G_nodes G)) [] = Some (c, a, r)"
  shows "diamond enum G seeds X alpha =
    Some (if set seeds - set (G_nodes G) \<noteq> {} then [WARNING (set seeds - set (G_nodes G))]
          else [], a, r)"
proof -
  have m: "set seeds - (set seeds \<inter> set (G_nodes G)) = set seeds - set (G_nodes G)" by auto
  show ?thesis
    unfolding diamond_def Let_def seeds_present_eq m using assms by simp
qed

subsection \<open>Runs on the two small graphs\<close>

lemma diamond_two_edges:
  "diamond id two_edges [''A''] 5 1 = Some ([], [''B''], NO_NODE_SELECTED)"
  by code_simp

lemma loop_two_edges:
  "loop id two_edges 5 1 {''A''} [] = Some ({''A'', ''B''}, [''B''], NO_NODE_SELECTED)"
  by code_simp

lemma iteration_two_edges: "iteration id two_edges 1 {''A''} = Inr ''B''"
  by code_simp

lemma non_seeds_two_edges:
  "int (card (set (G_nodes two_edges) - set [''A''])) < 5
   \<and> ''C'' \<in> set (G_nodes two_edges) - set [''A'']"
  by code_simp

lemma score_two_edges:
  "kb two_edges {''A''} ''C'' = 0 \<and> degrees_get two_edges ''C'' = 1
   \<and> score_candidate two_edges {''A''}
        (effective_s 1 (card {''A''}) (card (set (G_nodes two_edges)))) ''C'' = Some (P 1)"
  by code_simp

lemma score_two_edges_B:
  "score_candidate two_edges {''A''}
     (effective_s 1 (card {''A''}) (card (set (G_nodes two_edges)))) ''B'' = Some (P (1 / 4))
   \<and> kb two_edges {''A''} ''B'' = 1 \<and> G_degree two_edges ''B'' = 1
   \<and> card (set (G_nodes two_edges)) = 4 \<and> effective_s 1 (card {''A''}) 4 = 1
   \<and> ''B'' \<in> set (G_nodes two_edges)"
  by code_simp

lemma unconnected_two_edges:
  "kb two_edges {''A''} ''C'' = 0 \<and> ''C'' \<in> set (G_nodes two_edges)
   \<and> 0 < G_degree two_edges ''C''
   \<and> G_degree two_edges ''C'' \<le> card (set (G_nodes two_edges))
   \<and> (0::int) \<le> 1 \<and> 1 \<le> int (card (set (G_nodes two_edges)))"
  by code_simp

lemma diamond_star_id:
  "diamond id star [''A''] 1 1 = Some ([], [''B''], TARGET_REACHED)"
  by code_simp

lemma diamond_star_rev:
  "diamond rev star [''A''] 1 1 = Some ([], [''C''], TARGET_REACHED)"
  by code_simp

lemma diamond_star_missing:
  "diamond rev star [''Z''] 1 1 = Some ([WARNING {''Z''}, ERROR], [], EMPTY_SEED_SET)"
  by code_simp

lemma diamond_star_partial:
  "diamond rev star [''A'', ''Z''] 1 1 = Some ([WARNING {''Z''}], [''C''], TARGET_REACHED)"
  by code_simp

lemma iteration_star: "iteration id star 1 {''A''} = Inr ''B''"
  by code_simp

lemma score_star:
  "score_candidate star {''A''} (effective_s 1 (card {''A''}) (card (set (G_nodes star)))) ''B''
     = Some (P (1 / 3))
   \<and> score_candidate star {''A''} (effective_s 1 (card {''A''}) (card (set (G_nodes star)))) ''C''
     = Some (P (1 / 3))"
  by code_simp

lemma hypergeom_sf_values:
  "hypergeom_sf (int 0 - 1) (int 4) 1 (int 1) = P 1
   \<and> hypergeom_sf (int 1 - 1) (int 4) 1 (int 1) = P (1 / 4)"
  by code_simp

subsection \<open>Termination and the growth of the cluster\<close>

text \<open>
  Claim C10. The loop returns from every state, and so does the function, for every
  input and every order of walking sets: an iteration either admits one node, which
  makes the list of added nodes longer by one, or leaves the loop. The returned list has
  at most \<open>X\<close> nodes, none when \<open>X \<le> 0\<close>, and at most as many as the graph has nodes
  outside the seeds.
\<close>

theorem diamond_terminates:
  "(\<exists>res. loop enum G X alpha cluster added = Some res) \<and>
   (\<exists>printed a reason. diamond enum G seeds X alpha = Some (printed, a, reason) \<and>
      length a \<le> nat X \<and> (X \<le> 0 \<longrightarrow> a = []) \<and>
      (set_order enum \<longrightarrow> length a \<le> card (set (G_nodes G) - set seeds)))"
proof (rule conjI)
  have "\<exists>c a r. loop enum G X alpha cluster added = Some (c, a, r) \<and> True \<and>
           (if int (length a) < X then iteration enum G alpha c = Inl r
            else r = TARGET_REACHED)"
    by (rule loop_returns [where I = "\<lambda>c a. True"]) simp_all
  then show "\<exists>res. loop enum G X alpha cluster added = Some res" by blast
next
  let ?present = "set seeds \<inter> set (G_nodes G)"
  show "\<exists>printed a reason. diamond enum G seeds X alpha = Some (printed, a, reason) \<and>
      length a \<le> nat X \<and> (X \<le> 0 \<longrightarrow> a = []) \<and>
      (set_order enum \<longrightarrow> length a \<le> card (set (G_nodes G) - set seeds))"
  proof (cases "?present = {}")
    case True
    from diamond_empty [OF True] show ?thesis by simp
  next
    case False
    have "\<exists>c a r. loop enum G X alpha ?present [] = Some (c, a, r) \<and> True \<and>
           (if int (length a) < X then iteration enum G alpha c = Inl r
            else r = TARGET_REACHED)"
      by (rule loop_returns [where I = "\<lambda>c a. True"]) simp_all
    then obtain c a r where l: "loop enum G X alpha ?present [] = Some (c, a, r)" by blast
    have len: "length a \<le> nat X" by (rule loop_length [OF l])
    have bound: "length a \<le> card (set (G_nodes G) - set seeds)" if "set_order enum"
    proof -
      from loop_state [OF that, of G X alpha ?present "[]"] l
      have d: "distinct a" "set a \<inter> ?present = {}" "set a \<subseteq> set (G_nodes G)" by auto
      then have "set a \<subseteq> set (G_nodes G) - set seeds" by auto
      then have "card (set a) \<le> card (set (G_nodes G) - set seeds)"
        by (intro card_mono) auto
      with d(1) show ?thesis by (simp add: distinct_card)
    qed
    from diamond_present [OF False l] len bound show ?thesis by auto
  qed
qed

theorem diamond_terminates_witness:
  "set_order id \<and> diamond id two_edges [''A''] 5 1 = Some ([], [''B''], NO_NODE_SELECTED)
   \<and> length [''B''] \<le> nat 5 \<and> length [''B''] \<le> card (set (G_nodes two_edges) - set [''A''])
   \<and> (\<exists>res. loop id two_edges 5 1 {''A''} [] = Some res)"
  using diamond_terminates [of id two_edges 5 1 "{''A''}" "[]" "[''A'']"]
    diamond_two_edges set_order_id
  by simp

text \<open>
  Claim C6. From any state of the loop the run ends in a state whose list of added nodes
  is the old list followed by the nodes admitted since, in the order of admission; these
  are distinct, none was in the cluster, and the final cluster is the old one with exactly
  them added, so its size has grown by one for each. One iteration admits a node that is
  not yet in the cluster. The function starts the loop from the seeds that are in the
  graph and an empty list.
\<close>

theorem cluster_grows_one_by_one:
  assumes "set_order enum" and "finite cluster"
  shows "(\<exists>c ext r. loop enum G X alpha cluster added = Some (c, added @ ext, r) \<and>
            c = cluster \<union> set ext \<and> distinct ext \<and> set ext \<inter> cluster = {} \<and>
            card c = card cluster + length ext)
       \<and> (\<forall>b. iteration enum G alpha cluster = Inr b \<longrightarrow>
            b \<notin> cluster \<and> card (insert b cluster) = card cluster + 1)
       \<and> (set seeds \<inter> set (G_nodes G) \<noteq> {} \<longrightarrow>
            (\<exists>c a r printed.
               loop enum G X alpha (set seeds \<inter> set (G_nodes G)) [] = Some (c, a, r) \<and>
               diamond enum G seeds X alpha = Some (printed, a, r) \<and>
               c = (set seeds \<inter> set (G_nodes G)) \<union> set a \<and> distinct a \<and>
               card c = card (set seeds \<inter> set (G_nodes G)) + length a))"
proof (intro conjI allI impI)
  from loop_state [OF assms(1), of G X alpha cluster added]
  obtain c a r where l: "loop enum G X alpha cluster added = Some (c, added @ a, r)"
    "c = cluster \<union> set a" "distinct a" "set a \<inter> cluster = {}" by blast
  have "card (cluster \<union> set a) = card cluster + card (set a)"
    using assms(2) l(4) by (intro card_Un_disjoint) auto
  with l show "\<exists>c ext r. loop enum G X alpha cluster added = Some (c, added @ ext, r) \<and>
            c = cluster \<union> set ext \<and> distinct ext \<and> set ext \<inter> cluster = {} \<and>
            card c = card cluster + length ext"
    by (auto simp: distinct_card)
next
  fix b assume "iteration enum G alpha cluster = Inr b"
  from iteration_Inr [OF this] assms(1) have "b \<notin> cluster"
    by (auto simp: set_order_def)
  with assms(2) show "b \<notin> cluster" "card (insert b cluster) = card cluster + 1" by simp_all
next
  let ?present = "set seeds \<inter> set (G_nodes G)"
  assume ne: "?present \<noteq> {}"
  from loop_state [OF assms(1), of G X alpha ?present "[]"]
  obtain c a r where l: "loop enum G X alpha ?present [] = Some (c, a, r)"
    "c = ?present \<union> set a" "distinct a" "set a \<inter> ?present = {}" by auto
  have "card (?present \<union> set a) = card ?present + card (set a)"
    using l(4) by (intro card_Un_disjoint) auto
  with l diamond_present [OF ne l(1)]
  show "\<exists>c a r printed. loop enum G X alpha ?present [] = Some (c, a, r) \<and>
               diamond enum G seeds X alpha = Some (printed, a, r) \<and>
               c = ?present \<union> set a \<and> distinct a \<and> card c = card ?present + length a"
    by (auto simp: distinct_card)
qed

theorem cluster_grows_one_by_one_witness:
  "set_order id \<and> finite {''A''}
   \<and> loop id two_edges 5 1 {''A''} [] = Some ({''A'', ''B''}, [] @ [''B''], NO_NODE_SELECTED)
   \<and> card {''A'', ''B''} = card {''A''} + length [''B'']
   \<and> iteration id two_edges 1 {''A''} = Inr ''B'' \<and> ''B'' \<notin> {''A''}"
proof -
  have fin: "finite {''A''}" by simp
  from cluster_grows_one_by_one [OF set_order_id fin, of two_edges 5 1 "[]" "[''A'']"]
  obtain c ext r where "loop id two_edges 5 1 {''A''} [] = Some (c, [] @ ext, r)"
    and "card c = card {''A''} + length ext"
    and "\<forall>b. iteration id two_edges 1 {''A''} = Inr b \<longrightarrow> b \<notin> {''A''}"
    by blast
  with loop_two_edges iteration_two_edges
  have "card {''A'', ''B''} = card {''A''} + length [''B'']" and "''B'' \<notin> {''A''}"
    by simp_all
  with set_order_id fin loop_two_edges iteration_two_edges show ?thesis
    by (intro conjI) simp_all
qed

text \<open>
  Claim C9. Whatever the graph, the seeds, \<open>X\<close>, \<open>alpha\<close> and the order in which sets
  are walked, the call returns, and every node of the returned list is a node of the graph
  whose degree is not 0: a node of degree 0 is never admitted.
\<close>

theorem zero_degree_never_admitted:
  "\<exists>printed added reason. diamond enum G seeds X alpha = Some (printed, added, reason) \<and>
     (\<forall>n\<in>set added. n \<in> set (G_nodes G) \<and> G_degree G n \<noteq> 0)"
proof (cases "set seeds \<inter> set (G_nodes G) = {}")
  case True
  from diamond_empty [OF True] show ?thesis by simp
next
  case False
  define I where "I = (\<lambda>(c::node set) a. \<forall>n\<in>set a. n \<in> set (G_nodes G) \<and> G_degree G n \<noteq> 0)"
  have "\<exists>c a r. loop enum G X alpha (set seeds \<inter> set (G_nodes G)) [] = Some (c, a, r) \<and> I c a \<and>
           (if int (length a) < X then iteration enum G alpha c = Inl r
            else r = TARGET_REACHED)"
  proof (rule loop_returns [where I = I])
    show "I (set seeds \<inter> set (G_nodes G)) []" by (simp add: I_def)
  next
    fix c a b
    assume "I c a" and "iteration enum G alpha c = Inr b"
    with iteration_Inr [of enum G alpha c b] show "I (insert b c) (a @ [b])"
      by (auto simp: I_def)
  qed
  then obtain c a r where "loop enum G X alpha (set seeds \<inter> set (G_nodes G)) [] = Some (c, a, r)"
    and "I c a" by blast
  with diamond_present [OF False] show ?thesis
    by (auto simp: I_def)
qed

theorem zero_degree_never_admitted_witness:
  "diamond id two_edges [''A''] 5 1 = Some ([], [''B''], NO_NODE_SELECTED)
   \<and> G_degree two_edges ''B'' \<noteq> 0 \<and> ''B'' \<in> set (G_nodes two_edges)"
  using zero_degree_never_admitted [of id two_edges "[''A'']" 5 1] diamond_two_edges
  by simp

subsection \<open>The seed check\<close>

text \<open>
  Claim C7. When no seed is a node of the graph, the call prints the error line and
  returns the empty list. When some seed is a node of the graph, the call runs the loop
  from the seeds that are present and returns its list; the seeds that are missing, if
  any, are named in a warning and no error line is printed.
\<close>

theorem seed_check:
  "(set seeds \<inter> set (G_nodes G) = {} \<longrightarrow>
      (\<exists>printed. diamond enum G seeds X alpha = Some (printed, [], EMPTY_SEED_SET) \<and>
         ERROR \<in> set printed))
   \<and> (set seeds \<inter> set (G_nodes G) \<noteq> {} \<longrightarrow>
      (\<exists>c a r printed. loop enum G X alpha (set seeds \<inter> set (G_nodes G)) [] = Some (c, a, r) \<and>
         diamond enum G seeds X alpha = Some (printed, a, r) \<and> r \<noteq> EMPTY_SEED_SET \<and>
         ERROR \<notin> set printed \<and>
         printed = (if set seeds - set (G_nodes G) \<noteq> {}
                    then [WARNING (set seeds - set (G_nodes G))] else [])))"
proof (intro conjI impI)
  assume "set seeds \<inter> set (G_nodes G) = {}"
  from diamond_empty [OF this] show "\<exists>printed.
    diamond enum G seeds X alpha = Some (printed, [], EMPTY_SEED_SET) \<and> ERROR \<in> set printed"
    by simp
next
  let ?present = "set seeds \<inter> set (G_nodes G)"
  assume ne: "?present \<noteq> {}"
  have "\<exists>c a r. loop enum G X alpha ?present [] = Some (c, a, r) \<and> True \<and>
           (if int (length a) < X then iteration enum G alpha c = Inl r
            else r = TARGET_REACHED)"
    by (rule loop_returns [where I = "\<lambda>c a. True"]) simp_all
  then obtain c a r where l: "loop enum G X alpha ?present [] = Some (c, a, r)" by blast
  from diamond_present [OF ne l] loop_exit_reason [OF l] l
  show "\<exists>c a r printed. loop enum G X alpha ?present [] = Some (c, a, r) \<and>
         diamond enum G seeds X alpha = Some (printed, a, r) \<and> r \<noteq> EMPTY_SEED_SET \<and>
         ERROR \<notin> set printed \<and>
         printed = (if set seeds - set (G_nodes G) \<noteq> {}
                    then [WARNING (set seeds - set (G_nodes G))] else [])"
    by auto
qed

theorem seed_check_witness:
  "set [''Z''] \<inter> set (G_nodes star) = {}
   \<and> diamond rev star [''Z''] 1 1 = Some ([WARNING {''Z''}, ERROR], [], EMPTY_SEED_SET)
   \<and> set [''A'', ''Z''] \<inter> set (G_nodes star) \<noteq> {}
   \<and> diamond rev star [''A'', ''Z''] 1 1 = Some ([WARNING {''Z''}], [''C''], TARGET_REACHED)"
  using seed_check [of "[''Z'']" star rev 1 1] seed_check [of "[''A'', ''Z'']" star rev 1 1]
    diamond_star_missing diamond_star_partial
  by (simp add: star_def)

subsection \<open>Leaving the loop early\<close>

text \<open>
  Claim C5, as the code has it. With a seed in the graph and \<open>X\<close> above the number of
  nodes outside the seeds, the call stops with fewer than \<open>X\<close> nodes, all distinct nodes of
  the graph outside the seeds. Either no candidate is left, and then every such node has
  been admitted; or no node was selected, and then some such node is left out and no
  remaining candidate has a p-value below 1.
\<close>

theorem early_exit_above_non_seeds:
  assumes "set_order enum" and "set seeds \<inter> set (G_nodes G) \<noteq> {}"
    and "int (card (set (G_nodes G) - set seeds)) < X"
  shows "\<exists>printed a r. diamond enum G seeds X alpha = Some (printed, a, r) \<and>
           int (length a) < X \<and> distinct a \<and> set a \<subseteq> set (G_nodes G) - set seeds \<and>
           (r = NO_CANDIDATES \<and> set a = set (G_nodes G) - set seeds
            \<or> r = NO_NODE_SELECTED \<and> set a \<noteq> set (G_nodes G) - set seeds \<and>
               (\<forall>m\<in>set (G_nodes G) - set seeds - set a. \<forall>q.
                  score_candidate G (set seeds \<inter> set (G_nodes G) \<union> set a)
                    (effective_s alpha (card (set seeds \<inter> set (G_nodes G) \<union> set a))
                       (card (set (G_nodes G)))) m = Some (P q) \<longrightarrow> 1 \<le> q))"
proof -
  let ?present = "set seeds \<inter> set (G_nodes G)"
  let ?rest = "set (G_nodes G) - set seeds"
  from loop_state [OF assms(1), of G X alpha ?present "[]"]
  obtain c a r where l: "loop enum G X alpha ?present [] = Some (c, a, r)"
    and c: "c = ?present \<union> set a" and d: "distinct a" and dj: "set a \<inter> ?present = {}"
    and sub: "set a \<subseteq> set (G_nodes G)"
    and ex: "if int (length a) < X then iteration enum G alpha c = Inl r else r = TARGET_REACHED"
    by auto
  from sub dj have sub': "set a \<subseteq> ?rest" by auto
  then have "card (set a) \<le> card ?rest" by (intro card_mono) auto
  with d assms(3) have len: "int (length a) < X" by (simp add: distinct_card)
  with ex have it: "iteration enum G alpha c = Inl r" by simp
  have cands: "set (enum [n \<leftarrow> remdups (G_nodes G). n \<notin> c]) = ?rest - set a"
    using assms(1) c by (auto simp: set_order_def)
  from iteration_Inl [OF it]
  have "r = NO_CANDIDATES \<and> set a = ?rest
      \<or> r = NO_NODE_SELECTED \<and> set a \<noteq> ?rest \<and>
         (\<forall>m\<in>?rest - set a. \<forall>q.
            score_candidate G c (effective_s alpha (card c) (card (set (G_nodes G)))) m
              = Some (P q) \<longrightarrow> 1 \<le> q)"
  proof (elim disjE conjE)
    assume "r = NO_CANDIDATES" and "set (G_nodes G) \<subseteq> c"
    with c sub' show ?thesis by auto
  next
    assume "r = NO_NODE_SELECTED" and n: "\<not> set (G_nodes G) \<subseteq> c"
      and "\<forall>m\<in>set (enum [n \<leftarrow> remdups (G_nodes G). n \<notin> c]). \<forall>q.
        score_candidate G c (effective_s alpha (card c) (card (set (G_nodes G)))) m
          = Some (P q) \<longrightarrow> 1 \<le> q"
    moreover from n c have "set a \<noteq> ?rest" by auto
    ultimately show ?thesis unfolding cands by blast
  qed
  with diamond_present [OF assms(2) l] len d sub' show ?thesis
    unfolding c by auto
qed

theorem early_exit_above_non_seeds_witness:
  "set_order id \<and> set [''A''] \<inter> set (G_nodes two_edges) \<noteq> {}
   \<and> int (card (set (G_nodes two_edges) - set [''A''])) < 5
   \<and> (\<exists>printed a r. diamond id two_edges [''A''] 5 1 = Some (printed, a, r) \<and>
           int (length a) < 5 \<and> distinct a \<and> set a \<subseteq> set (G_nodes two_edges) - set [''A''] \<and>
           (r = NO_CANDIDATES \<and> set a = set (G_nodes two_edges) - set [''A'']
            \<or> r = NO_NODE_SELECTED \<and> set a \<noteq> set (G_nodes two_edges) - set [''A''] \<and>
               (\<forall>m\<in>set (G_nodes two_edges) - set [''A''] - set a. \<forall>q.
                  score_candidate two_edges (set [''A''] \<inter> set (G_nodes two_edges) \<union> set a)
                    (effective_s 1 (card (set [''A''] \<inter> set (G_nodes two_edges) \<union> set a))
                       (card (set (G_nodes two_edges)))) m = Some (P q) \<longrightarrow> 1 \<le> q)))"
proof -
  have h1: "set [''A''] \<inter> set (G_nodes two_edges) \<noteq> {}"
    by (simp add: two_edges_def)
  have h2: "int (card (set (G_nodes two_edges) - set [''A''])) < 5"
    by code_simp
  from early_exit_above_non_seeds [OF set_order_id h1 h2, of 1] set_order_id h1 h2
  show ?thesis by (intro conjI)
qed

theorem no_candidates_counterexample:
  "set [''A''] \<inter> set (G_nodes two_edges) \<noteq> {}
   \<and> int (card (set (G_nodes two_edges) - set [''A''])) < 5
   \<and> diamond id two_edges [''A''] 5 1 = Some ([], [''B''], NO_NODE_SELECTED)
   \<and> NO_NODE_SELECTED \<noteq> NO_CANDIDATES
   \<and> ''C'' \<in> set (G_nodes two_edges) - set [''A''] \<and> ''C'' \<notin> set [''B'']"
  using diamond_two_edges non_seeds_two_edges by (simp add: two_edges_def)

subsection \<open>Ties and unconnected candidates\<close>

text \<open>
  Claim C2, as the code has it. Two runs that walk every set in the same order return the
  same result. In an iteration that admits a node, the node is the first one, in the order
  in which the candidate set is walked, whose p-value is the least of the p-values scored:
  every candidate walked before it has a greater p-value, none walked after it has a
  smaller one. A tie is won by the candidate that is walked first.
\<close>

theorem winner_is_first_minimum:
  "((\<forall>xs. enum xs = enum' xs) \<longrightarrow>
      diamond enum G seeds X alpha = diamond enum' G seeds X alpha)
   \<and> (iteration enum G alpha cluster = Inr b \<longrightarrow>
      (\<exists>pre post p.
         enum [n \<leftarrow> remdups (G_nodes G). n \<notin> cluster] = pre @ b # post \<and> p < 1 \<and>
         score_candidate G cluster (effective_s alpha (card cluster) (card (set (G_nodes G)))) b
           = Some (P p) \<and>
         (\<forall>m\<in>set pre. \<forall>q.
            score_candidate G cluster
              (effective_s alpha (card cluster) (card (set (G_nodes G)))) m = Some (P q)
            \<longrightarrow> p < q) \<and>
         (\<forall>m\<in>set post. \<forall>q.
            score_candidate G cluster
              (effective_s alpha (card cluster) (card (set (G_nodes G)))) m = Some (P q)
            \<longrightarrow> p \<le> q)))"
proof (intro conjI impI)
  assume "\<forall>xs. enum xs = enum' xs"
  then have "enum = enum'" by (intro ext) simp
  then show "diamond enum G seeds X alpha = diamond enum' G seeds X alpha" by simp
next
  let ?s = "effective_s alpha (card cluster) (card (set (G_nodes G)))"
  let ?cs = "enum [n \<leftarrow> remdups (G_nodes G). n \<notin> cluster]"
  assume "iteration enum G alpha cluster = Inr b"
  then have "fst (scan G cluster ?s ?cs) = Some b"
    by (auto simp: iteration_def Let_def split: if_splits option.splits)
  from scan_Some [OF this]
  show "\<exists>pre post p. ?cs = pre @ b # post \<and> p < 1 \<and>
         score_candidate G cluster ?s b = Some (P p) \<and>
         (\<forall>m\<in>set pre. \<forall>q. score_candidate G cluster ?s m = Some (P q) \<longrightarrow> p < q) \<and>
         (\<forall>m\<in>set post. \<forall>q. score_candidate G cluster ?s m = Some (P q) \<longrightarrow> p \<le> q)"
    by blast
qed

theorem winner_is_first_minimum_witness:
  "(\<forall>xs. id xs = id xs) \<and> iteration id star 1 {''A''} = Inr ''B''
   \<and> diamond id star [''A''] 1 1 = diamond id star [''A''] 1 1
   \<and> (\<exists>pre post p.
         id [n \<leftarrow> remdups (G_nodes star). n \<notin> {''A''}] = pre @ ''B'' # post \<and> p < 1 \<and>
         score_candidate star {''A''} (effective_s 1 (card {''A''}) (card (set (G_nodes star)))) ''B''
           = Some (P p) \<and>
         (\<forall>m\<in>set pre. \<forall>q.
            score_candidate star {''A''}
              (effective_s 1 (card {''A''}) (card (set (G_nodes star)))) m = Some (P q)
            \<longrightarrow> p < q) \<and>
         (\<forall>m\<in>set post. \<forall>q.
            score_candidate star {''A''}
              (effective_s 1 (card {''A''}) (card (set (G_nodes star)))) m = Some (P q)
            \<longrightarrow> p \<le> q))"
  using winner_is_first_minimum [of id id star "[''A'']" 1 1 "{''A''}" "''B''"] iteration_star
  by simp

theorem tie_break_counterexample:
  "set_order id \<and> set_order rev
   \<and> score_candidate star {''A''} (effective_s 1 (card {''A''}) (card (set (G_nodes star)))) ''B''
       = Some (P (1 / 3))
   \<and> score_candidate star {''A''} (effective_s 1 (card {''A''}) (card (set (G_nodes star)))) ''C''
       = Some (P (1 / 3))
   \<and> diamond id star [''A''] 1 1 = Some ([], [''B''], TARGET_REACHED)
   \<and> diamond rev star [''A''] 1 1 = Some ([], [''C''], TARGET_REACHED)
   \<and> diamond id star [''A''] 1 1 \<noteq> diamond rev star [''A''] 1 1"
  using set_order_id set_order_rev score_star diamond_star_id diamond_star_rev
  by simp

text \<open>
  Claim C3, as the code has it. A candidate of degree 0 is skipped without being scored.
  A candidate of positive degree with no neighbour in the cluster is scored, its p-value
  is 1 whenever the parameters are in the domain of the distribution, and it is never
  the node selected by the scan, so never the node an iteration admits.
\<close>

theorem unconnected_scored_never_selected:
  "(degrees_get G node = 0 \<longrightarrow> score_candidate G cluster s node = None)
   \<and> (kb G cluster node = 0 \<and> node \<in> set (G_nodes G) \<and> 0 < G_degree G node \<and>
        G_degree G node \<le> card (set (G_nodes G)) \<and> 0 \<le> s \<and> s \<le> int (card (set (G_nodes G)))
      \<longrightarrow> score_candidate G cluster s node = Some (P 1))
   \<and> (kb G cluster node = 0 \<longrightarrow>
        fst (scan G cluster s candidates) \<noteq> Some node \<and>
        iteration enum G alpha cluster \<noteq> Inr node)"
proof (intro conjI impI)
  assume "degrees_get G node = 0"
  then show "score_candidate G cluster s node = None"
    by (simp add: score_candidate_def)
next
  assume h: "kb G cluster node = 0 \<and> node \<in> set (G_nodes G) \<and> 0 < G_degree G node \<and>
        G_degree G node \<le> card (set (G_nodes G)) \<and> 0 \<le> s \<and> s \<le> int (card (set (G_nodes G)))"
  then have "0 < card (set (G_nodes G))"
    by (auto simp: card_gt_0_iff)
  with h show "score_candidate G cluster s node = Some (P 1)"
    by (simp add: score_candidate_def degrees_get_def Let_def hypergeom_sf_def
        hypergeom_cdf_below)
next
  assume k: "kb G cluster node = 0"
  have no: "fst (scan G cluster s' xs) \<noteq> Some node" for s' xs
  proof
    assume "fst (scan G cluster s' xs) = Some node"
    from scan_Some [OF this] obtain p where "p < 1"
      "score_candidate G cluster s' node = Some (P p)" by blast
    with score_candidate_kb_0 [OF k, of s'] show False by auto
  qed
  then show "fst (scan G cluster s candidates) \<noteq> Some node" by simp
  show "iteration enum G alpha cluster \<noteq> Inr node"
    using no by (auto simp: iteration_def Let_def split: if_splits option.splits)
qed

theorem unconnected_scored_never_selected_witness:
  "kb two_edges {''A''} ''C'' = 0 \<and> ''C'' \<in> set (G_nodes two_edges)
   \<and> 0 < G_degree two_edges ''C''
   \<and> G_degree two_edges ''C'' \<le> card (set (G_nodes two_edges))
   \<and> (0::int) \<le> 1 \<and> 1 \<le> int (card (set (G_nodes two_edges)))
   \<and> score_candidate two_edges {''A''} 1 ''C'' = Some (P 1)
   \<and> iteration id two_edges 1 {''A''} \<noteq> Inr ''C''"
  using unconnected_scored_never_selected [of two_edges "''C''" "{''A''}" 1 "[]" id 1]
    unconnected_two_edges
  by simp

theorem unconnected_scored_counterexample:
  "''C'' \<in> set (G_nodes two_edges) \<and> ''C'' \<notin> {''A''} \<and> kb two_edges {''A''} ''C'' = 0
   \<and> score_candidate two_edges {''A''}
        (effective_s 1 (card {''A''}) (card (set (G_nodes two_edges)))) ''C'' = Some (P 1)
   \<and> score_candidate two_edges {''A''}
        (effective_s 1 (card {''A''}) (card (set (G_nodes two_edges)))) ''C'' \<noteq> None"
  using score_two_edges by (simp add: two_edges_def)

subsection \<open>The survival function as an upper tail\<close>

lemma filter_upt_le: "[i \<leftarrow> [0..<m]. int i \<le> x] = [0..<min (nat (x + 1)) m]"
proof (induction m)
  case 0
  then show ?case by simp
next
  case (Suc m)
  show ?case
  proof (cases "int m \<le> x")
    case True
    then have "min (nat (x + 1)) (Suc m) = Suc m" "min (nat (x + 1)) m = m" by linarith+
    with Suc True show ?thesis by simp
  next
    case False
    then have "min (nat (x + 1)) (Suc m) = min (nat (x + 1)) m" by linarith
    with Suc False show ?thesis by simp
  qed
qed

lemma hypergeom_cdf_sum:
  "hypergeom_cdf x M n N = (\<Sum>i<min (nat (x + 1)) (Suc (min n N)). hypergeom_pmf i M n N)"
  unfolding hypergeom_cdf_def filter_upt_le
  by (simp add: interv_sum_list_conv_sum_set_nat atLeast0LessThan)

lemma hypergeom_pmf_nonneg: "0 \<le> hypergeom_pmf i M n N"
  by (simp add: hypergeom_pmf_def)


lemma hypergeom_cdf_mono:
  assumes "x \<le> y"
  shows "hypergeom_cdf x M n N \<le> hypergeom_cdf y M n N"
  unfolding hypergeom_cdf_sum
  using assms by (intro sum_mono2) (auto simp: hypergeom_pmf_nonneg)


lemma kb_card:
  assumes "node \<in> set (G_nodes G)"
  shows "kb G cluster node = card (set (G_neighbors G node) \<inter> cluster)"
proof -
  have "kb G cluster node = length [nb \<leftarrow> remdups (G_neighbors G node). nb \<in> cluster]"
    using assms by (simp add: kb_def neighbors_get_def)
  also have "\<dots> = card ({nb. nb \<in> cluster} \<inter> set (remdups (G_neighbors G node)))"
    by (rule distinct_length_filter) simp
  also have "{nb. nb \<in> cluster} \<inter> set (remdups (G_neighbors G node))
      = set (G_neighbors G node) \<inter> cluster" by auto
  finally show ?thesis .
qed

lemma hypergeom_sf_antitone:
  assumes "0 < N" and "0 \<le> s" and "s \<le> int N" and "k \<le> N" and "b \<le> b'"
  shows "\<exists>p p'. hypergeom_sf (int b - 1) (int N) s (int k) = P p \<and>
                hypergeom_sf (int b' - 1) (int N) s (int k) = P p' \<and> p' \<le> p"
proof -
  from assms(5) have "hypergeom_cdf (int b - 1) N (nat s) k
      \<le> hypergeom_cdf (int b' - 1) N (nat s) k"
    by (intro hypergeom_cdf_mono) simp
  with assms(1-4) show ?thesis
    by (simp add: hypergeom_sf_def)
qed


lemma score_two_edges_empty:
  "score_candidate two_edges {} 1 ''B'' = Some (P 1)
   \<and> score_candidate two_edges {''A''} 1 ''B'' = Some (P (1 / 4))
   \<and> card (set (G_neighbors two_edges ''B'') \<inter> {}) = 0
   \<and> card (set (G_neighbors two_edges ''B'') \<inter> {''A''}) = 1"
  by code_simp




text \<open>
  Claim C8, for the scorer of the specification. For a population \<open>N > 0\<close>, success states
  \<open>0 \<le> s \<le> N\<close> and draws \<open>k \<le> N\<close>, the p-value \<open>sf(kb - 1, N, s, k)\<close> is a number and does
  not increase when \<open>kb\<close> increases (the two values of \<open>kb\<close> are \<open>b\<close> and \<open>b'\<close> below). So
  the p-value that an iteration computes for a candidate does not increase when, at the
  same \<open>s\<close>, more of the neighbours of the candidate are in the cluster.
\<close>

theorem pvalue_antitone:
  "(0 < N \<and> 0 \<le> s \<and> s \<le> int N \<and> k \<le> N \<and> b \<le> b' \<longrightarrow>
      (\<exists>p p'. hypergeom_sf (int b - 1) (int N) s (int k) = P p \<and>
               hypergeom_sf (int b' - 1) (int N) s (int k) = P p' \<and> p' \<le> p))
   \<and> (node \<in> set (G_nodes G) \<and> 0 < G_degree G node \<and>
        G_degree G node \<le> card (set (G_nodes G)) \<and>
        0 \<le> s' \<and> s' \<le> int (card (set (G_nodes G))) \<and>
        card (set (G_neighbors G node) \<inter> cluster)
          \<le> card (set (G_neighbors G node) \<inter> cluster') \<longrightarrow>
      (\<exists>p p'. score_candidate G cluster s' node = Some (P p) \<and>
               score_candidate G cluster' s' node = Some (P p') \<and> p' \<le> p))"
proof (intro conjI impI)
  assume "0 < N \<and> 0 \<le> s \<and> s \<le> int N \<and> k \<le> N \<and> b \<le> b'"
  then show "\<exists>p p'. hypergeom_sf (int b - 1) (int N) s (int k) = P p \<and>
               hypergeom_sf (int b' - 1) (int N) s (int k) = P p' \<and> p' \<le> p"
    by (intro hypergeom_sf_antitone) simp_all
next
  let ?N = "card (set (G_nodes G))"
  let ?k = "G_degree G node"
  assume h: "node \<in> set (G_nodes G) \<and> 0 < ?k \<and> ?k \<le> ?N \<and> 0 \<le> s' \<and> s' \<le> int ?N \<and>
        card (set (G_neighbors G node) \<inter> cluster)
          \<le> card (set (G_neighbors G node) \<inter> cluster')"
  then have N: "0 < ?N" by (auto simp: card_gt_0_iff)
  have sc: "score_candidate G c s' node
      = Some (hypergeom_sf (int (card (set (G_neighbors G node) \<inter> c)) - 1) (int ?N) s' (int ?k))"
    for c
    using h by (simp add: score_candidate_def degrees_get_def Let_def kb_card)
  from h N have "\<exists>p p'.
      hypergeom_sf (int (card (set (G_neighbors G node) \<inter> cluster)) - 1) (int ?N) s' (int ?k) = P p \<and>
      hypergeom_sf (int (card (set (G_neighbors G node) \<inter> cluster')) - 1) (int ?N) s' (int ?k) = P p' \<and>
      p' \<le> p"
    by (intro hypergeom_sf_antitone) simp_all
  then show "\<exists>p p'. score_candidate G cluster s' node = Some (P p) \<and>
               score_candidate G cluster' s' node = Some (P p') \<and> p' \<le> p"
    by (simp add: sc)
qed

theorem pvalue_antitone_witness:
  "(0::nat) < 4 \<and> (0::int) \<le> 1 \<and> (1::int) \<le> int 4 \<and> (1::nat) \<le> 4 \<and> (0::nat) \<le> 1
   \<and> hypergeom_sf (int 0 - 1) (int 4) 1 (int 1) = P 1
   \<and> hypergeom_sf (int 1 - 1) (int 4) 1 (int 1) = P (1 / 4)
   \<and> ''B'' \<in> set (G_nodes two_edges) \<and> 0 < G_degree two_edges ''B''
   \<and> G_degree two_edges ''B'' \<le> card (set (G_nodes two_edges))
   \<and> card (set (G_neighbors two_edges ''B'') \<inter> {})
        \<le> card (set (G_neighbors two_edges ''B'') \<inter> {''A''})
   \<and> score_candidate two_edges {} 1 ''B'' = Some (P 1)
   \<and> score_candidate two_edges {''A''} 1 ''B'' = Some (P (1 / 4))
   \<and> (1 / 4 :: rat) \<le> 1"
  using pvalue_antitone [of 4 1 1 0 1 "''B''" two_edges 1 "{}" "{''A''}"]
    hypergeom_sf_values score_two_edges_empty score_two_edges_B
  by simp

end
